theory Spec2Isabelle
  imports Complex_Main "HOL-Library.Sublist"
begin

section \<open>Values, replies and the world around the program\<close>

text \<open>
  The program is one Python script, \<^verbatim>\<open>search_query.py\<close>. Its logic is the function
  \<^verbatim>\<open>search_semantic_scholar\<close> (one search with retry and backoff), the sweep over
  all pairs of a topic and a year at the top level of the script, and the chart switch
  \<^verbatim>\<open>create_plot\<close>. Everything the script does to its surroundings (HTTP requests,
  random draws, sleeping, messages on the page) is made explicit: the surroundings are a
  record \<open>world\<close> that is passed through every function.

  Python integers are \<open>int\<close>. Python floats are modelled by \<open>real\<close>: no property below
  depends on rounding.
\<close>

datatype pyval = PyStr string | PyInt int | PyFloat real

text \<open>
  A response of the search API, as far as the script reads it: the status code, the
  text of the \<^verbatim>\<open>HTTPError\<close> that \<^verbatim>\<open>raise_for_status\<close> raises for it, and of the
  JSON body the key \<^verbatim>\<open>total\<close> and the key \<^verbatim>\<open>data\<close> (a list of papers, each given
  by its \<^verbatim>\<open>citationCount\<close>; \<open>None\<close> where a key is absent). Bodies are taken to parse
  as JSON objects of these two shapes.
\<close>

record response =
  status_code :: nat
  error_text :: string
  total :: "int option"
  data :: "int option list option"

text \<open>
  \<^verbatim>\<open>requests.get\<close> either raises a \<^verbatim>\<open>RequestException\<close> (given by its text
  \<^verbatim>\<open>str(e)\<close>) or returns a response.
\<close>

datatype reply = Raises string | Returns response

datatype backoff_kind = RateLimit | ApiError

text \<open>
  What the script does to the outside, in the order it does it. \<open>Call\<close> records that
  the sweep calls \<^verbatim>\<open>search_semantic_scholar\<close> (line 351), so that the order of the
  courtesy delay and the call can be stated. A warning of the retry loop is kept
  structured: its kind, \<^verbatim>\<open>retry_count\<close>, \<^verbatim>\<open>max_retries\<close> and \<^verbatim>\<open>wait_time\<close>.
\<close>

datatype event =
    Get string string nat string
  | Sleep real
  | Warning backoff_kind int int real
  | Print string
  | StatusText string
  | Info string
  | ErrorBox string
  | StError string
  | Progress real
  | Call string int

text \<open>
  The world: the reply to the k-th call of \<^verbatim>\<open>requests.get\<close>, the value of the k-th
  call of \<^verbatim>\<open>random.random()\<close>, how many of each have been used, and the trace of
  events so far.
\<close>

record world =
  replies :: "nat \<Rightarrow> reply"
  draws :: "nat \<Rightarrow> real"
  n_get :: nat
  n_draw :: nat
  trace :: "event list"

definition emit :: "event \<Rightarrow> world \<Rightarrow> world" where
  "emit e w = w\<lparr>trace := trace w @ [e]\<rparr>"

definition requests_get :: "string \<Rightarrow> string \<Rightarrow> nat \<Rightarrow> string \<Rightarrow> world \<Rightarrow> reply \<times> world" where
  "requests_get query year limit flds w =
     (replies w (n_get w), emit (Get query year limit flds) (w\<lparr>n_get := Suc (n_get w)\<rparr>))"

text \<open>\<^verbatim>\<open>random.uniform(a, b)\<close> is \<^verbatim>\<open>a + (b - a) * random()\<close>.\<close>

definition random_uniform :: "real \<Rightarrow> real \<Rightarrow> world \<Rightarrow> real \<times> world" where
  "random_uniform a b w = (a + (b - a) * draws w (n_draw w), w\<lparr>n_draw := Suc (n_draw w)\<rparr>)"

definition time_sleep :: "real \<Rightarrow> world \<Rightarrow> world" where
  "time_sleep d w = emit (Sleep d) w"

text \<open>
  \<^verbatim>\<open>raise_for_status\<close> raises for a status code from 400 to 599; the result is the
  text of the exception, or \<open>None\<close> when nothing is raised.
\<close>

definition raise_for_status :: "response \<Rightarrow> string option" where
  "raise_for_status r =
     (if 400 \<le> status_code r \<and> status_code r < 600 then Some (error_text r) else None)"

subsection \<open>Decimal text of an integer\<close>

function str_nat :: "nat \<Rightarrow> string" where
  "str_nat n =
     (if n < 10 then [char_of (48 + n)] else str_nat (n div 10) @ [char_of (48 + n mod 10)])"
  by pat_completeness auto
termination
  by (relation "measure id") auto

declare str_nat.simps [simp del]

definition str_int :: "int \<Rightarrow> string" where
  "str_int i = (if i < 0 then CHR ''-'' # str_nat (nat (- i)) else str_nat (nat i))"

section \<open>The query executor: \<^verbatim>\<open>search_semantic_scholar\<close>\<close>

text \<open>
  Lines 156 to 170, the part of the \<^verbatim>\<open>try\<close> block that decides which path an
  attempt takes: an exception of \<^verbatim>\<open>requests.get\<close> or of \<^verbatim>\<open>raise_for_status\<close> goes
  to the handler of line 203, status 429 to the rate-limit branch of line 159 (it is
  tested before \<^verbatim>\<open>raise_for_status\<close>), anything else is a success.
\<close>

datatype attempt = RateLimited | Failed string | Succeeded response

definition classify :: "reply \<Rightarrow> attempt" where
  "classify rep =
     (case rep of
        Raises e \<Rightarrow> Failed e
      | Returns r \<Rightarrow>
          if status_code r = 429 then RateLimited
          else (case raise_for_status r of Some e \<Rightarrow> Failed e | None \<Rightarrow> Succeeded r))"

definition backoff_base :: "backoff_kind \<Rightarrow> real" where
  "backoff_base k = (case k of RateLimit \<Rightarrow> 3 | ApiError \<Rightarrow> 2)"

text \<open>
  Lines 165 to 167 and 209 to 211: the wait is the base to the power \<^verbatim>\<open>retry_count\<close>
  plus \<^verbatim>\<open>random.uniform(0, 1)\<close>; it is shown in a warning and then slept.
\<close>

definition backoff :: "backoff_kind \<Rightarrow> int \<Rightarrow> int \<Rightarrow> world \<Rightarrow> world" where
  "backoff kind retry_count max_retries w =
     (let jw = random_uniform 0 1 w;
          wait_time = backoff_base kind ^ nat retry_count + fst jw
      in time_sleep wait_time (emit (Warning kind retry_count max_retries wait_time) (snd jw)))"

text \<open>
  Lines 179 to 199, the second request. Every exception in it is caught (line 197) and
  becomes the advisory message; \<^verbatim>\<open>citation_count\<close> stays the integer 0 unless a
  non-empty list of papers came back.
\<close>

definition citation_error :: "string \<Rightarrow> string" where
  "citation_error e = ''Got publication count but couldn'' @ [CHR 0x27] @ ''t retrieve citation data: '' @ e"

definition sample_citations :: "string \<Rightarrow> int \<Rightarrow> world \<Rightarrow> (pyval \<times> string option) \<times> world" where
  "sample_citations query year w =
     (let gw = requests_get query (str_int year) 100 ''citationCount'' w in
      case fst gw of
        Raises e \<Rightarrow> ((PyInt 0, Some (citation_error e)), snd gw)
      | Returns r \<Rightarrow>
          (case raise_for_status r of
             Some e \<Rightarrow> ((PyInt 0, Some (citation_error e)), snd gw)
           | None \<Rightarrow>
               (case data r of
                  None \<Rightarrow> ((PyInt 0, None), snd gw)
                | Some papers \<Rightarrow>
                    if papers \<noteq> [] then
                      ((PyFloat (real_of_int (sum_list (map (case_option 0 id) papers))
                                 / real (length papers)), None), snd gw)
                    else ((PyInt 0, None), snd gw))))"

text \<open>Lines 171 to 201: what a successful first request returns.\<close>

definition on_success ::
  "string \<Rightarrow> int \<Rightarrow> bool \<Rightarrow> response \<Rightarrow> world \<Rightarrow> (int \<times> pyval \<times> string option) \<times> world" where
  "on_success query year include_citations r w =
     (let tot = (case total r of None \<Rightarrow> 0 | Some t \<Rightarrow> t) in
      if include_citations \<and> tot > 0 then
        (let cw = sample_citations query year w
         in ((tot, fst (fst cw), snd (fst cw)), snd cw))
      else ((tot, PyInt 0, None), w))"

text \<open>
  The \<^verbatim>\<open>while\<close> loop of lines 154 to 211. The result is \<open>Some\<close> of the returned
  triple when the loop returns from inside, and \<open>None\<close> when the loop condition is false
  and control falls through to line 213.
\<close>

function retry_loop ::
  "string \<Rightarrow> int \<Rightarrow> bool \<Rightarrow> int \<Rightarrow> int \<Rightarrow> world \<Rightarrow> (int \<times> pyval \<times> string option) option \<times> world" where
  "retry_loop query year include_citations max_retries retry_count w =
     (if retry_count \<le> max_retries then
        (case classify (fst (requests_get query (str_int year) 1 ''year'' w)) of
           RateLimited \<Rightarrow>
             if retry_count + 1 > max_retries then
               (Some (0, PyInt 0,
                      Some (''Rate limit exceeded after '' @ str_int max_retries @ '' retries'')),
                snd (requests_get query (str_int year) 1 ''year'' w))
             else
               retry_loop query year include_citations max_retries (retry_count + 1)
                 (backoff RateLimit (retry_count + 1) max_retries
                    (snd (requests_get query (str_int year) 1 ''year'' w)))
         | Succeeded r \<Rightarrow>
             (let rw = on_success query year include_citations r
                         (snd (requests_get query (str_int year) 1 ''year'' w))
              in (Some (fst rw), snd rw))
         | Failed e \<Rightarrow>
             if retry_count + 1 > max_retries \<or> \<not> sublist ''429'' e then
               (Some (0, PyInt 0, Some (''API Error: '' @ e)),
                snd (requests_get query (str_int year) 1 ''year'' w))
             else
               retry_loop query year include_citations max_retries (retry_count + 1)
                 (backoff ApiError (retry_count + 1) max_retries
                    (snd (requests_get query (str_int year) 1 ''year'' w))))
      else (None, w))"
  by pat_completeness auto
termination
  by (relation "measure (\<lambda>(query, year, include_citations, max_retries, retry_count, w).
                  nat (max_retries + 1 - retry_count))") auto

declare retry_loop.simps [simp del]

definition search_semantic_scholar ::
  "string \<Rightarrow> int \<Rightarrow> bool \<Rightarrow> int \<Rightarrow> world \<Rightarrow> (int \<times> pyval \<times> string option) \<times> world" where
  "search_semantic_scholar query year include_citations max_retries w =
     (let lw = retry_loop query year include_citations max_retries 0 w in
      case fst lw of
        Some r \<Rightarrow> (r, snd lw)
      | None \<Rightarrow> ((0, PyInt 0, Some ''Max retries exceeded''), snd lw))"

section \<open>The trend table builder: the sweep of lines 312 to 371\<close>

text \<open>
  A result is a Python dictionary, modelled as an association list in insertion order.
  The state of the sweep is its two accumulating lists, the iteration counter and the
  world.
\<close>

type_synonym result = "(string \<times> pyval) list"

record sweep_state =
  results :: "result list"
  errors :: "string list"
  current_iteration :: int
  env :: world

text \<open>
  Lines 353 to 356. \<^verbatim>\<open>if error_msg:\<close> is false for \<^verbatim>\<open>None\<close> and for the empty
  string. Only the first five errors are shown while the sweep runs.
\<close>

definition note_error ::
  "string \<Rightarrow> int \<Rightarrow> string option \<Rightarrow> string list \<Rightarrow> world \<Rightarrow> string list \<times> world" where
  "note_error topic year error_msg errs w =
     (case error_msg of
        None \<Rightarrow> (errs, w)
      | Some m \<Rightarrow>
          if m = [] then (errs, w)
          else
            (let errs1 = errs @ [''Error for '' @ [CHR 0x27] @ topic @ [CHR 0x27] @ '' in ''
                                  @ str_int year @ '': '' @ m]
             in (errs1, if length errs1 \<le> 5 then emit (ErrorBox (last errs1)) w else w)))"

text \<open>Lines 358 to 365: the dictionary of one pair.\<close>

definition make_result :: "string \<Rightarrow> int \<Rightarrow> int \<Rightarrow> bool \<Rightarrow> pyval \<Rightarrow> result" where
  "make_result topic year pub_count include_citations citation_avg =
     (let result = [(''Topic'', PyStr topic), (''Year'', PyInt year),
                    (''Publications'', PyInt pub_count)]
      in if include_citations then result @ [(''Average Citations'', citation_avg)]
         else result)"

text \<open>Lines 342 to 345: the query is the topic itself; it is printed and shown.\<close>

definition announce :: "string \<Rightarrow> int \<Rightarrow> world \<Rightarrow> world" where
  "announce topic year w =
     (let query = topic;
          w1 = emit (Print (''THE FULL QUERY IS: '' @ query)) w
      in emit (StatusText (''Searching for '' @ [CHR 0x27] @ topic @ [CHR 0x27] @ '' in ''
                           @ str_int year @ ''...'')) w1)"

text \<open>Lines 348 and 349: the courtesy delay.\<close>

definition courtesy_delay :: "int \<Rightarrow> int \<Rightarrow> world \<Rightarrow> world" where
  "courtesy_delay min_delay max_delay w =
     (case random_uniform (of_int min_delay) (of_int max_delay) w of
        (delay, w1) \<Rightarrow> time_sleep delay w1)"

text \<open>
  Lines 341 to 371, the body of the inner loop. The call of line 351 passes no
  \<^verbatim>\<open>max_retries\<close>, so the default 3 applies.
\<close>

definition pair_step ::
  "bool \<Rightarrow> int \<Rightarrow> int \<Rightarrow> int \<Rightarrow> string \<Rightarrow> int \<Rightarrow> sweep_state \<Rightarrow> sweep_state" where
  "pair_step include_citations min_delay max_delay total_iterations topic year s =
     (let query = topic;
          w1 = announce topic year (env s);
          w2 = courtesy_delay min_delay max_delay w1
      in case search_semantic_scholar query year include_citations 3
                (emit (Call query year) w2) of
           ((pub_count, citation_avg, error_msg), w3) \<Rightarrow>
             (case note_error topic year error_msg (errors s) w3 of
                (errs, w4) \<Rightarrow>
                  (let it = current_iteration s + 1
                   in \<lparr>results = results s
                                   @ [make_result topic year pub_count include_citations
                                        citation_avg],
                       errors = errs,
                       current_iteration = it,
                       env = emit (Progress (of_int it / of_int total_iterations)) w4\<rparr>)))"

fun year_loop ::
  "bool \<Rightarrow> int \<Rightarrow> int \<Rightarrow> int \<Rightarrow> string \<Rightarrow> int list \<Rightarrow> sweep_state \<Rightarrow> sweep_state" where
  "year_loop ic mn mx ti topic [] s = s"
| "year_loop ic mn mx ti topic (year # years) s =
     year_loop ic mn mx ti topic years (pair_step ic mn mx ti topic year s)"

fun topic_loop ::
  "bool \<Rightarrow> int \<Rightarrow> int \<Rightarrow> int \<Rightarrow> string list \<Rightarrow> int list \<Rightarrow> sweep_state \<Rightarrow> sweep_state" where
  "topic_loop ic mn mx ti [] years s = s"
| "topic_loop ic mn mx ti (topic # topics) years s =
     topic_loop ic mn mx ti topics years (year_loop ic mn mx ti topic years s)"

text \<open>
  Lines 312 to 371, for the topic list of line 310. With \<^verbatim>\<open>start_year > end_year\<close>
  only the message of line 313 is shown: no \<^verbatim>\<open>results\<close> and no \<^verbatim>\<open>errors\<close> list
  comes into being. \<^verbatim>\<open>range(start_year, end_year + 1)\<close> is \<open>[start_year..end_year]\<close>.
\<close>

datatype outcome = Rejected world | Completed sweep_state

definition run_search ::
  "string list \<Rightarrow> int \<Rightarrow> int \<Rightarrow> bool \<Rightarrow> int \<Rightarrow> int \<Rightarrow> world \<Rightarrow> outcome" where
  "run_search topic_list start_year end_year include_citations min_delay max_delay w =
     (if start_year > end_year then
        Rejected (emit (StError ''Start year must be less than or equal to end year.'') w)
      else
        (let years = [start_year..end_year];
             w1 = emit (Info ''Searching in Title and Abstract ...'') w;
             total_iterations = int (length topic_list) * int (length years)
         in Completed
              (topic_loop include_citations min_delay max_delay total_iterations topic_list years
                 \<lparr>results = [], errors = [], current_iteration = 0, env = w1\<rparr>)))"

definition records_of :: "outcome \<Rightarrow> result list" where
  "records_of out = (case out of Rejected w \<Rightarrow> [] | Completed s \<Rightarrow> results s)"

definition errors_of :: "outcome \<Rightarrow> string list" where
  "errors_of out = (case out of Rejected w \<Rightarrow> [] | Completed s \<Rightarrow> errors s)"

definition world_of :: "outcome \<Rightarrow> world" where
  "world_of out = (case out of Rejected w \<Rightarrow> w | Completed s \<Rightarrow> env s)"

section \<open>The plot selector: \<^verbatim>\<open>create_plot\<close>\<close>






section \<open>Reading a trace\<close>

definition is_get :: "event \<Rightarrow> bool" where
  "is_get e = (case e of Get q y l f \<Rightarrow> True | _ \<Rightarrow> False)"

definition is_sleep :: "event \<Rightarrow> bool" where
  "is_sleep e = (case e of Sleep d \<Rightarrow> True | _ \<Rightarrow> False)"

definition is_call :: "event \<Rightarrow> bool" where
  "is_call e = (case e of Call q y \<Rightarrow> True | _ \<Rightarrow> False)"

text \<open>The events that happened between the world \<open>w\<close> and the later world \<open>w'\<close>.\<close>

definition new_events :: "world \<Rightarrow> world \<Rightarrow> event list" where
  "new_events w w' = drop (length (trace w)) (trace w')"

text \<open>\<^verbatim>\<open>random.random()\<close> returns a value of the half-open interval from 0 to 1.\<close>

definition unit_draws :: "world \<Rightarrow> bool" where
  "unit_draws w = (\<forall>k. 0 \<le> draws w k \<and> draws w k < 1)"

text \<open>
  A trace of the executor is well backed off when every warning carries a retry number
  \<open>n\<close> of at least 1 and a wait of at least the base to the power \<open>n\<close> and less than
  that plus 1, is followed at once by a sleep of exactly this wait, and no other sleep
  occurs.
\<close>

fun backoff_ok :: "event list \<Rightarrow> bool" where
  "backoff_ok [] = True"
| "backoff_ok [e] = (case e of Warning k n m t \<Rightarrow> False | Sleep d \<Rightarrow> False | _ \<Rightarrow> True)"
| "backoff_ok (e # e' # tr) =
     (case e of
        Warning k n m t \<Rightarrow>
          e' = Sleep t \<and> 1 \<le> n \<and> backoff_base k ^ nat n \<le> t
          \<and> t < backoff_base k ^ nat n + 1 \<and> backoff_ok tr
      | Sleep d \<Rightarrow> False
      | _ \<Rightarrow> backoff_ok (e' # tr))"

text \<open>
  A trace of the sweep keeps the courtesy delay when every call of the executor stands
  directly after a sleep whose duration lies between \<open>lo\<close> and \<open>hi\<close>.
\<close>

definition delay_in :: "real \<Rightarrow> real \<Rightarrow> event \<Rightarrow> bool" where
  "delay_in lo hi e = (case e of Sleep d \<Rightarrow> lo \<le> d \<and> d \<le> hi | _ \<Rightarrow> False)"

fun preceded :: "real \<Rightarrow> real \<Rightarrow> event list \<Rightarrow> bool" where
  "preceded lo hi (e # e' # tr) =
     ((if is_call e' then delay_in lo hi e else True) \<and> preceded lo hi (e' # tr))"
| "preceded lo hi tr = True"

definition courtesy_ok :: "real \<Rightarrow> real \<Rightarrow> event list \<Rightarrow> bool" where
  "courtesy_ok lo hi tr =
     ((case tr of [] \<Rightarrow> True | e # tr' \<Rightarrow> \<not> is_call e) \<and> preceded lo hi tr)"

text \<open>The pairs for which the executor was called, in order.\<close>

definition calls_of :: "event list \<Rightarrow> (string \<times> int) list" where
  "calls_of tr = concat (map (\<lambda>e. case e of Call q y \<Rightarrow> [(q, y)] | _ \<Rightarrow> []) tr)"

text \<open>The topic and the year that a result record carries.\<close>

definition pair_of :: "result \<Rightarrow> pyval option \<times> pyval option" where
  "pair_of r = (map_of r ''Topic'', map_of r ''Year'')"

text \<open>
  The rule that the optional field of a result record follows: the key
  \<^verbatim>\<open>Average Citations\<close> is present exactly when citation inclusion is requested, and
  then its value is the integer 0 whenever the publication count is not positive.
\<close>

definition citation_field_rule :: "bool \<Rightarrow> result \<Rightarrow> bool" where
  "citation_field_rule include_citations r =
     (((map_of r ''Average Citations'' \<noteq> None) = include_citations) \<and>
      (case map_of r ''Publications'' of
         Some (PyInt p) \<Rightarrow>
           (if include_citations \<and> p \<le> 0
            then map_of r ''Average Citations'' = Some (PyInt 0) else True)
       | _ \<Rightarrow> True))"

text \<open>The world in which line 351 calls the executor for a pair.\<close>

definition before_call :: "int \<Rightarrow> int \<Rightarrow> string \<Rightarrow> int \<Rightarrow> world \<Rightarrow> world" where
  "before_call min_delay max_delay topic year w =
     emit (Call topic year) (courtesy_delay min_delay max_delay (announce topic year w))"

section \<open>Example worlds\<close>

definition ok_response :: "int \<Rightarrow> response" where
  "ok_response t = \<lparr>status_code = 200, error_text = [], total = Some t, data = None\<rparr>"

definition limited_response :: response where
  "limited_response =
     \<lparr>status_code = 429, error_text = ''429 Client Error: Too Many Requests'',
      total = None, data = None\<rparr>"

definition start_world :: "(nat \<Rightarrow> reply) \<Rightarrow> world" where
  "start_world rs = \<lparr>replies = rs, draws = (\<lambda>k. 1 / 2), n_get = 0, n_draw = 0, trace = []\<rparr>"

text \<open>Every request fails with a connection error.\<close>

definition refused_world :: world where
  "refused_world = start_world (\<lambda>k. Raises ''Connection refused'')"

text \<open>Every request is answered with status 429.\<close>

definition limited_world :: world where
  "limited_world = start_world (\<lambda>k. Returns limited_response)"

text \<open>The first request raises an exception whose text contains 429, the others succeed.\<close>

definition proxy_world :: world where
  "proxy_world =
     start_world (\<lambda>k. if k = 0 then Raises ''429 from proxy'' else Returns (ok_response 7))"

text \<open>The mock search of the specification: 150 matches for the first pair, then none.\<close>

definition mock_world :: world where
  "mock_world = start_world (\<lambda>k. Returns (ok_response (if k = 0 then 150 else 0)))"

text \<open>The count request finds 150 matches, the citation request then times out.\<close>

definition flaky_world :: world where
  "flaky_world =
     start_world (\<lambda>k. if k = 0 then Returns (ok_response 150)
                       else if k = 1 then Raises ''Read timed out''
                       else Returns (ok_response 0))"

text \<open>Every request succeeds and finds nothing.\<close>

definition empty_world :: world where
  "empty_world = start_world (\<lambda>k. Returns (ok_response 0))"

section \<open>How the operations change the world\<close>

lemma emit_simps [simp]:
  "trace (emit e w) = trace w @ [e]" "replies (emit e w) = replies w"
  "draws (emit e w) = draws w" "n_get (emit e w) = n_get w" "n_draw (emit e w) = n_draw w"
  by (simp_all add: emit_def)

lemma requests_get_simps [simp]:
  "fst (requests_get q y l f w) = replies w (n_get w)"
  "trace (snd (requests_get q y l f w)) = trace w @ [Get q y l f]"
  "replies (snd (requests_get q y l f w)) = replies w"
  "draws (snd (requests_get q y l f w)) = draws w"
  "n_get (snd (requests_get q y l f w)) = Suc (n_get w)"
  "n_draw (snd (requests_get q y l f w)) = n_draw w"
  by (simp_all add: requests_get_def)

lemma backoff_simps [simp]:
  "trace (backoff k n m w) =
     trace w @ [Warning k n m (backoff_base k ^ nat n + draws w (n_draw w)),
                Sleep (backoff_base k ^ nat n + draws w (n_draw w))]"
  "replies (backoff k n m w) = replies w"
  "draws (backoff k n m w) = draws w"
  "n_get (backoff k n m w) = n_get w"
  "n_draw (backoff k n m w) = Suc (n_draw w)"
  by (simp_all add: backoff_def Let_def random_uniform_def time_sleep_def)

lemma sample_citations_frame [simp]:
  "trace (snd (sample_citations q y w)) = trace w @ [Get q (str_int y) 100 ''citationCount'']"
  "replies (snd (sample_citations q y w)) = replies w"
  "draws (snd (sample_citations q y w)) = draws w"
  "n_get (snd (sample_citations q y w)) = Suc (n_get w)"
  "n_draw (snd (sample_citations q y w)) = n_draw w"
  by (simp_all add: sample_citations_def Let_def split: reply.splits option.splits)

lemma on_success_frame:
  "replies (snd (on_success q y ic r w)) = replies w"
  "draws (snd (on_success q y ic r w)) = draws w"
  "n_draw (snd (on_success q y ic r w)) = n_draw w"
  "\<exists>ext. trace (snd (on_success q y ic r w)) = trace w @ ext \<and> (\<forall>e\<in>set ext. is_get e)"
  by (simp_all add: on_success_def Let_def is_get_def)

lemma retry_loop_None: "fst (retry_loop q y ic mr rc w) = None \<longleftrightarrow> mr < rc"
proof (induction q y ic mr rc w rule: retry_loop.induct)
  case (1 q y ic mr rc w)
  show ?case
    using "1.IH"
    by (subst retry_loop.simps)
       (simp add: Let_def split: attempt.splits del: split_paired_Ex split_paired_All)
qed


lemma backoff_ok_Get [simp]: "backoff_ok (Get q y l f # tr) = backoff_ok tr"
  by (cases tr) simp_all

lemma gets_backoff_ok: "\<forall>e\<in>set ext. is_get e \<Longrightarrow> backoff_ok ext"
  by (induction ext rule: backoff_ok.induct) (auto simp: is_get_def split: event.splits)

lemma gets_no_call: "is_get e \<Longrightarrow> \<not> is_call e"
  by (cases e) (auto simp: is_get_def is_call_def)

lemma retry_loop_trace:
  "\<exists>ext. trace (snd (retry_loop q y ic mr rc w)) = trace w @ ext
         \<and> (\<forall>e\<in>set ext. \<not> is_call e)
         \<and> (unit_draws w \<and> 0 \<le> rc \<longrightarrow> backoff_ok ext)"
proof (induction q y ic mr rc w rule: retry_loop.induct)
  case (1 q y ic mr rc w)
  let ?w1 = "snd (requests_get q (str_int y) 1 ''year'' w)"
  let ?g = "Get q (str_int y) 1 ''year''"
  have step: "\<exists>ext. trace (snd (retry_loop q y ic mr rc w)) = trace w @ ext
         \<and> (\<forall>e\<in>set ext. \<not> is_call e)
         \<and> (unit_draws w \<and> 0 \<le> rc \<longrightarrow> backoff_ok ext)"
    if go: "retry_loop q y ic mr rc w = retry_loop q y ic mr (rc + 1) (backoff k (rc + 1) mr ?w1)"
      and ih: "\<exists>ext. trace (snd (retry_loop q y ic mr (rc + 1) (backoff k (rc + 1) mr ?w1)))
                     = trace (backoff k (rc + 1) mr ?w1) @ ext
         \<and> (\<forall>e\<in>set ext. \<not> is_call e)
         \<and> (unit_draws (backoff k (rc + 1) mr ?w1) \<and> 0 \<le> rc + 1 \<longrightarrow> backoff_ok ext)"
    for k
  proof -
    let ?w2 = "backoff k (rc + 1) mr ?w1"
    let ?t = "backoff_base k ^ nat (rc + 1) + draws w (n_draw w)"
    let ?pre = "[?g, Warning k (rc + 1) mr ?t, Sleep ?t]"
    from ih obtain ext where ext: "trace (snd (retry_loop q y ic mr (rc + 1) ?w2)) = trace ?w2 @ ext"
      "\<forall>e\<in>set ext. \<not> is_call e"
      "unit_draws ?w2 \<and> 0 \<le> rc + 1 \<longrightarrow> backoff_ok ext"
      by blast
    have "trace (snd (retry_loop q y ic mr rc w)) = trace w @ (?pre @ ext)"
      using go ext(1) by simp
    moreover have "\<forall>e\<in>set (?pre @ ext). \<not> is_call e"
      using ext(2) by (simp add: is_call_def)
    moreover have "backoff_ok (?pre @ ext)" if "unit_draws w" "0 \<le> rc"
    proof -
      have "unit_draws ?w2" using that(1) by (simp add: unit_draws_def)
      then have "backoff_ok ext" using ext(3) that(2) by simp
      moreover have "backoff_base k ^ nat (rc + 1) \<le> ?t" "?t < backoff_base k ^ nat (rc + 1) + 1"
        using that(1) by (simp_all add: unit_draws_def)
      ultimately show ?thesis using that(2) by simp
    qed
    ultimately show ?thesis by blast
  qed
  show ?case
  proof (cases "rc \<le> mr")
    case False
    then show ?thesis by (subst retry_loop.simps) simp
  next
    case le: True
    show ?thesis
    proof (cases "classify (replies w (n_get w))")
      case RateLimited
      show ?thesis
      proof (cases "rc + 1 > mr")
        case True
        with le RateLimited show ?thesis
          by (subst retry_loop.simps) (simp add: is_call_def)
      next
        case False
        have "retry_loop q y ic mr rc w
                = retry_loop q y ic mr (rc + 1) (backoff RateLimit (rc + 1) mr ?w1)"
          using le RateLimited False by (subst retry_loop.simps) simp
        moreover have "\<exists>ext. trace (snd (retry_loop q y ic mr (rc + 1) (backoff RateLimit (rc + 1) mr ?w1)))
                     = trace (backoff RateLimit (rc + 1) mr ?w1) @ ext
           \<and> (\<forall>e\<in>set ext. \<not> is_call e)
           \<and> (unit_draws (backoff RateLimit (rc + 1) mr ?w1) \<and> 0 \<le> rc + 1 \<longrightarrow> backoff_ok ext)"
          using "1.IH"(1) le RateLimited False by simp
        ultimately show ?thesis by (rule step)
      qed
    next
      case (Failed e)
      show ?thesis
      proof (cases "rc + 1 > mr \<or> \<not> sublist ''429'' e")
        case True
        with le Failed show ?thesis
          by (subst retry_loop.simps) (auto simp add: is_call_def)
      next
        case False
        have "retry_loop q y ic mr rc w
                = retry_loop q y ic mr (rc + 1) (backoff ApiError (rc + 1) mr ?w1)"
          using le Failed False by (subst retry_loop.simps) simp
        moreover have "\<exists>ext. trace (snd (retry_loop q y ic mr (rc + 1) (backoff ApiError (rc + 1) mr ?w1)))
                     = trace (backoff ApiError (rc + 1) mr ?w1) @ ext
           \<and> (\<forall>e\<in>set ext. \<not> is_call e)
           \<and> (unit_draws (backoff ApiError (rc + 1) mr ?w1) \<and> 0 \<le> rc + 1 \<longrightarrow> backoff_ok ext)"
          using "1.IH"(2) le Failed False by simp
        ultimately show ?thesis by (rule step)
      qed
    next
      case (Succeeded r)
      obtain ext where ext: "trace (snd (on_success q y ic r ?w1)) = trace ?w1 @ ext"
        "\<forall>e\<in>set ext. is_get e"
        using on_success_frame(4) by blast
      have "trace (snd (retry_loop q y ic mr rc w)) = trace w @ (?g # ext)"
        using le Succeeded ext(1) by (subst retry_loop.simps) (simp add: Let_def)
      moreover have "backoff_ok (?g # ext)" using gets_backoff_ok [OF ext(2)] by simp
      moreover have "\<forall>e\<in>set (?g # ext). \<not> is_call e"
        using ext(2) gets_no_call by (auto simp: is_call_def)
      ultimately show ?thesis by blast
    qed
  qed
qed

lemma retry_loop_frame:
  "replies (snd (retry_loop q y ic mr rc w)) = replies w \<and>
   draws (snd (retry_loop q y ic mr rc w)) = draws w"
proof (induction q y ic mr rc w rule: retry_loop.induct)
  case (1 q y ic mr rc w)
  show ?case
    using "1.IH"
    by (subst (1 2) retry_loop.simps)
       (simp add: Let_def on_success_frame split: attempt.splits del: split_paired_Ex split_paired_All)
qed

lemma all_limited:
  assumes "rc \<le> mr"
    and "\<forall>k. int k \<le> mr - rc \<longrightarrow> classify (replies w (n_get w + k)) = RateLimited"
  shows "fst (retry_loop q y ic mr rc w)
           = Some (0, PyInt 0, Some (''Rate limit exceeded after '' @ str_int mr @ '' retries''))
         \<and> length (filter is_sleep (trace (snd (retry_loop q y ic mr rc w))))
             = length (filter is_sleep (trace w)) + nat (mr - rc)
         \<and> length (filter is_get (trace (snd (retry_loop q y ic mr rc w))))
             = length (filter is_get (trace w)) + nat (mr - rc) + 1"
  using assms
proof (induction q y ic mr rc w rule: retry_loop.induct)
  case (1 q y ic mr rc w)
  let ?w1 = "snd (requests_get q (str_int y) 1 ''year'' w)"
  have now: "classify (replies w (n_get w)) = RateLimited"
    using "1.prems"(2) [rule_format, of 0] "1.prems"(1) by simp
  show ?case
  proof (cases "rc + 1 > mr")
    case True
    with "1.prems"(1) now show ?thesis
      by (subst (1 2 3) retry_loop.simps) (simp add: is_sleep_def is_get_def)
  next
    case False
    let ?w2 = "backoff RateLimit (rc + 1) mr ?w1"
    have go: "retry_loop q y ic mr rc w = retry_loop q y ic mr (rc + 1) ?w2"
      using "1.prems"(1) now False by (subst retry_loop.simps) simp
    have later: "\<forall>k. int k \<le> mr - (rc + 1) \<longrightarrow> classify (replies ?w2 (n_get ?w2 + k)) = RateLimited"
    proof (intro allI impI)
      fix k assume "int k \<le> mr - (rc + 1)"
      then have "int (Suc k) \<le> mr - rc" by simp
      then show "classify (replies ?w2 (n_get ?w2 + k)) = RateLimited"
        using "1.prems"(2) [rule_format, of "Suc k"] by simp
    qed
    have now': "classify (fst (requests_get q (str_int y) 1 ''year'' w)) = RateLimited"
      using now by simp
    have "rc + 1 \<le> mr" using False by simp
    from "1.IH"(1) [OF "1.prems"(1) now' False this later]
    show ?thesis
      unfolding go using False by (simp add: is_sleep_def is_get_def nat_diff_distrib')
  qed
qed


lemma new_events_ext: "trace w' = trace w @ ext \<Longrightarrow> new_events w w' = ext"
  by (simp add: new_events_def)

lemma search_world:
  "snd (search_semantic_scholar q y ic mr w) = snd (retry_loop q y ic mr 0 w)"
  by (simp add: search_semantic_scholar_def Let_def split: option.splits)

lemma search_result:
  "fst (search_semantic_scholar q y ic mr w) =
     (case fst (retry_loop q y ic mr 0 w) of
        Some r \<Rightarrow> r | None \<Rightarrow> (0, PyInt 0, Some ''Max retries exceeded''))"
  by (simp add: search_semantic_scholar_def Let_def split: option.splits)

lemma retry_loop_first_get:
  assumes "rc \<le> mr"
  shows "\<exists>rest. trace (snd (retry_loop q y ic mr rc w))
                  = trace w @ Get q (str_int y) 1 ''year'' # rest"
proof -
  let ?w1 = "snd (requests_get q (str_int y) 1 ''year'' w)"
  have after: "\<exists>rest. trace w' = trace w @ Get q (str_int y) 1 ''year'' # rest"
    if "\<exists>ext. trace w' = trace ?w1 @ ext" for w'
    using that by auto
  show ?thesis
  proof (cases "classify (replies w (n_get w))")
    case RateLimited
    show ?thesis
    proof (cases "rc + 1 > mr")
      case True
      with assms RateLimited show ?thesis by (subst retry_loop.simps) simp
    next
      case False
      have "retry_loop q y ic mr rc w
              = retry_loop q y ic mr (rc + 1) (backoff RateLimit (rc + 1) mr ?w1)"
        using assms RateLimited False by (subst retry_loop.simps) simp
      moreover obtain ext where
        "trace (snd (retry_loop q y ic mr (rc + 1) (backoff RateLimit (rc + 1) mr ?w1)))
           = trace (backoff RateLimit (rc + 1) mr ?w1) @ ext"
        using retry_loop_trace by blast
      ultimately show ?thesis by (intro after) simp
    qed
  next
    case (Failed e)
    show ?thesis
    proof (cases "rc + 1 > mr \<or> \<not> sublist ''429'' e")
      case True
      with assms Failed show ?thesis by (subst retry_loop.simps) auto
    next
      case False
      have "retry_loop q y ic mr rc w
              = retry_loop q y ic mr (rc + 1) (backoff ApiError (rc + 1) mr ?w1)"
        using assms Failed False by (subst retry_loop.simps) simp
      moreover obtain ext where
        "trace (snd (retry_loop q y ic mr (rc + 1) (backoff ApiError (rc + 1) mr ?w1)))
           = trace (backoff ApiError (rc + 1) mr ?w1) @ ext"
        using retry_loop_trace by blast
      ultimately show ?thesis by (intro after) simp
    qed
  next
    case (Succeeded r)
    obtain ext where "trace (snd (on_success q y ic r ?w1)) = trace ?w1 @ ext"
      using on_success_frame(4) by blast
    then show ?thesis
      using assms Succeeded by (subst retry_loop.simps) (simp add: Let_def)
  qed
qed

section \<open>Claims about the query executor\<close>

text \<open>
  Claim C9, as amended. The return of line 213 after the loop is reached exactly when
  \<^verbatim>\<open>max_retries\<close> is negative: then the loop condition is false on entry and the body
  never runs. For every \<^verbatim>\<open>max_retries\<close> of at least 0, every world and every sequence
  of replies the function returns from inside the loop.
\<close>

theorem fallback_only_for_negative_max_retries:
  "(fst (retry_loop query year include_citations max_retries 0 w) = None) = (max_retries < 0)"
  by (rule retry_loop_None)

theorem fallback_only_for_negative_max_retries_witness:
  "fst (retry_loop ''AI'' 2020 False 3 0 limited_world) \<noteq> None"
  using fallback_only_for_negative_max_retries [of "''AI''" 2020 False 3 limited_world]
  by simp

text \<open>
  The claim as written (unreachable for every input) fails for \<^verbatim>\<open>max_retries = -1\<close>:
  the loop falls through without a request and line 213 returns.
\<close>

theorem fallback_reached_example:
  "fst (retry_loop ''AI'' 2020 False (- 1) 0 limited_world) = None \<and>
   fst (search_semantic_scholar ''AI'' 2020 False (- 1) limited_world)
     = (0, PyInt 0, Some ''Max retries exceeded'')"
  by code_simp

text \<open>
  Claim C3. When each of the \<^verbatim>\<open>max_retries + 1\<close> attempts for a pair is answered with
  status 429, the executor returns publication count 0, citation count 0 and the
  non-empty message of line 162; it sleeps exactly \<^verbatim>\<open>max_retries\<close> times (so at most
  that often) and issues \<^verbatim>\<open>max_retries + 1\<close> requests.
\<close>

theorem rate_limit_exhaustion:
  assumes "0 \<le> max_retries"
    and "\<forall>k. int k \<le> max_retries \<longrightarrow>
           (\<exists>r. replies w (n_get w + k) = Returns r \<and> status_code r = 429)"
  shows "fst (search_semantic_scholar query year include_citations max_retries w)
           = (0, PyInt 0,
              Some (''Rate limit exceeded after '' @ str_int max_retries @ '' retries''))
         \<and> ''Rate limit exceeded after '' @ str_int max_retries @ '' retries'' \<noteq> []
         \<and> int (length (filter is_sleep
               (new_events w
                  (snd (search_semantic_scholar query year include_citations max_retries w)))))
             = max_retries
         \<and> int (length (filter is_get
               (new_events w
                  (snd (search_semantic_scholar query year include_citations max_retries w)))))
             = max_retries + 1"
proof -
  let ?r = "retry_loop query year include_citations max_retries 0 w"
  have lim: "\<forall>k. int k \<le> max_retries - 0 \<longrightarrow> classify (replies w (n_get w + k)) = RateLimited"
    using assms(2) by (auto simp: classify_def)
  note al = all_limited [OF assms(1) lim, of query year include_citations]
  obtain ext where ext: "trace (snd ?r) = trace w @ ext"
    using retry_loop_trace by blast
  have ne: "new_events w (snd ?r) = ext" using ext by (rule new_events_ext)
  have "length (filter is_sleep ext) = nat max_retries"
    "length (filter is_get ext) = nat max_retries + 1"
    using al ext by simp_all
  then show ?thesis
    using al assms(1) by (simp add: search_world search_result ne)
qed

theorem rate_limit_exhaustion_witness:
  "fst (search_semantic_scholar ''AI'' 2020 False 3 limited_world)
     = (0, PyInt 0, Some ''Rate limit exceeded after 3 retries'')
   \<and> int (length (filter is_sleep
         (new_events limited_world
            (snd (search_semantic_scholar ''AI'' 2020 False 3 limited_world))))) = 3"
proof -
  have always: "\<forall>k. int k \<le> 3 \<longrightarrow>
      (\<exists>r. replies limited_world (n_get limited_world + k) = Returns r \<and> status_code r = 429)"
    by (simp add: limited_world_def start_world_def limited_response_def)
  have three: "str_int 3 = ''3''" by code_simp
  show ?thesis
    using rate_limit_exhaustion [OF _ always, of "''AI''" 2020 False] three by simp
qed




text \<open>
  Claim C4, as amended. A request error (an exception of \<^verbatim>\<open>requests.get\<close> or of
  \<^verbatim>\<open>raise_for_status\<close>) is retried only when its text contains \<^verbatim>\<open>429\<close> and a retry
  is left: then the executor warns, sleeps at least \<open>2 ^ n\<close> and less than \<open>2 ^ n + 1\<close>
  seconds for retry \<open>n\<close> and sends the request again. Every other request error is
  returned at once as the per-item error of line 206, also on its first occurrence.
\<close>
theorem request_error_retry_rule:
  assumes fail: "classify (replies w (n_get w)) = Failed e"
    and rc: "0 \<le> retry_count" "retry_count \<le> max_retries"
    and unit: "unit_draws w"
  shows "(\<not> sublist ''429'' e \<or> max_retries < retry_count + 1 \<longrightarrow>
            retry_loop query year include_citations max_retries retry_count w
              = (Some (0, PyInt 0, Some (''API Error: '' @ e)),
                 snd (requests_get query (str_int year) 1 ''year'' w)))
       \<and> (sublist ''429'' e \<and> retry_count + 1 \<le> max_retries \<longrightarrow>
            (\<exists>t rest.
               new_events w
                 (snd (retry_loop query year include_citations max_retries retry_count w))
                 = Get query (str_int year) 1 ''year''
                   # Warning ApiError (retry_count + 1) max_retries t # Sleep t
                   # Get query (str_int year) 1 ''year'' # rest
               \<and> 2 ^ nat (retry_count + 1) \<le> t \<and> t < 2 ^ nat (retry_count + 1) + 1))
       \<and> (retry_count = 0 \<and> \<not> sublist ''429'' e \<longrightarrow>
            fst (search_semantic_scholar query year include_citations max_retries w)
              = (0, PyInt 0, Some (''API Error: '' @ e))
            \<and> new_events w
                 (snd (search_semantic_scholar query year include_citations max_retries w))
                = [Get query (str_int year) 1 ''year''])"
proof -
  let ?w1 = "snd (requests_get query (str_int year) 1 ''year'' w)"
  let ?g = "Get query (str_int year) 1 ''year''"
  have fail': "classify (fst (requests_get query (str_int year) 1 ''year'' w)) = Failed e"
    using fail by simp
  have a: "retry_loop query year include_citations max_retries retry_count w
              = (Some (0, PyInt 0, Some (''API Error: '' @ e)), ?w1)"
    if "\<not> sublist ''429'' e \<or> max_retries < retry_count + 1"
    using that rc(2) fail' by (subst retry_loop.simps) auto
  have b: "\<exists>t rest.
               new_events w
                 (snd (retry_loop query year include_citations max_retries retry_count w))
                 = ?g # Warning ApiError (retry_count + 1) max_retries t # Sleep t # ?g # rest
               \<and> 2 ^ nat (retry_count + 1) \<le> t \<and> t < 2 ^ nat (retry_count + 1) + 1"
    if sub: "sublist ''429'' e" and more: "retry_count + 1 \<le> max_retries"
  proof -
    let ?w2 = "backoff ApiError (retry_count + 1) max_retries ?w1"
    let ?t = "2 ^ nat (retry_count + 1) + draws w (n_draw w)"
    have go: "retry_loop query year include_citations max_retries retry_count w
                = retry_loop query year include_citations max_retries (retry_count + 1) ?w2"
      using sub more rc(2) fail' by (subst retry_loop.simps) simp
    obtain rest where
      "trace (snd (retry_loop query year include_citations max_retries (retry_count + 1) ?w2))
         = trace ?w2 @ ?g # rest"
      using retry_loop_first_get [OF more] by blast
    then have "trace (snd (retry_loop query year include_citations max_retries retry_count w))
         = trace w @ (?g # Warning ApiError (retry_count + 1) max_retries ?t # Sleep ?t
                      # ?g # rest)"
      unfolding go by (simp add: backoff_base_def)
    then have "new_events w
                 (snd (retry_loop query year include_citations max_retries retry_count w))
                 = ?g # Warning ApiError (retry_count + 1) max_retries ?t # Sleep ?t # ?g # rest"
      by (rule new_events_ext)
    moreover have "2 ^ nat (retry_count + 1) \<le> ?t" "?t < 2 ^ nat (retry_count + 1) + 1"
      using unit by (simp_all add: unit_draws_def)
    ultimately show ?thesis by blast
  qed
  have c: "fst (search_semantic_scholar query year include_citations max_retries w)
              = (0, PyInt 0, Some (''API Error: '' @ e))
            \<and> new_events w
                 (snd (search_semantic_scholar query year include_citations max_retries w))
                = [?g]"
    if "retry_count = 0" "\<not> sublist ''429'' e"
    using a that by (simp add: search_result search_world new_events_def)
  show ?thesis using a b c by blast
qed

theorem request_error_retry_rule_witness:
  "(\<exists>t rest.
      new_events proxy_world (snd (retry_loop ''AI'' 2020 False 3 0 proxy_world))
        = Get ''AI'' (str_int 2020) 1 ''year'' # Warning ApiError (0 + 1) 3 t # Sleep t
          # Get ''AI'' (str_int 2020) 1 ''year'' # rest
      \<and> 2 ^ nat (0 + 1) \<le> t \<and> t < 2 ^ nat (0 + 1) + 1)
   \<and> fst (search_semantic_scholar ''AI'' 2020 False 3 refused_world)
       = (0, PyInt 0, Some (''API Error: '' @ ''Connection refused''))"
proof -
  have p: "classify (replies proxy_world (n_get proxy_world)) = Failed ''429 from proxy''"
    by (simp add: proxy_world_def start_world_def classify_def)
  have r: "classify (replies refused_world (n_get refused_world)) = Failed ''Connection refused''"
    by (simp add: refused_world_def start_world_def classify_def)
  have up: "unit_draws proxy_world" and ur: "unit_draws refused_world"
    by (simp_all add: unit_draws_def proxy_world_def refused_world_def start_world_def)
  have s: "sublist ''429'' ''429 from proxy''" "\<not> sublist ''429'' ''Connection refused''"
    by code_simp+
  show ?thesis
    using request_error_retry_rule [OF p _ _ up, of 0 3 "''AI''" 2020 False]
      request_error_retry_rule [OF r _ _ ur, of 0 3 "''AI''" 2020 False] s
    by simp
qed

text \<open>
  The claim as written (every request error is retried) fails for a refused connection:
  one request, no sleep, and the error is returned.
\<close>

theorem request_error_returned_at_once:
  "fst (search_semantic_scholar ''AI'' 2020 False 3 refused_world)
     = (0, PyInt 0, Some ''API Error: Connection refused'')
   \<and> new_events refused_world (snd (search_semantic_scholar ''AI'' 2020 False 3 refused_world))
     = [Get ''AI'' ''2020'' 1 ''year'']"
  by code_simp

section \<open>Claims about the plot selector\<close>



section \<open>Claims about the sweep\<close>

text \<open>
  Claim C2. With \<^verbatim>\<open>start_year > end_year\<close> the search is rejected with the message of
  line 313 and nothing else happens: no request, no sleep, no result record and no
  per-item error.
\<close>
theorem inverted_range_rejected:
  assumes "start_year > end_year"
  shows "run_search topic_list start_year end_year include_citations min_delay max_delay w
           = Rejected (emit (StError ''Start year must be less than or equal to end year.'') w)
       \<and> records_of (run_search topic_list start_year end_year include_citations
                        min_delay max_delay w) = []
       \<and> errors_of (run_search topic_list start_year end_year include_citations
                        min_delay max_delay w) = []
       \<and> n_get (world_of (run_search topic_list start_year end_year include_citations
                        min_delay max_delay w)) = n_get w
       \<and> filter is_get (new_events w (world_of (run_search topic_list start_year end_year
                        include_citations min_delay max_delay w))) = []
       \<and> filter is_sleep (new_events w (world_of (run_search topic_list start_year end_year
                        include_citations min_delay max_delay w))) = []"
  using assms
  by (simp add: run_search_def records_of_def errors_of_def world_of_def new_events_def
        is_get_def is_sleep_def)

theorem inverted_range_rejected_witness:
  "records_of (run_search [''AI''] 2021 2020 False 2 5 mock_world) = []
   \<and> n_get (world_of (run_search [''AI''] 2021 2020 False 2 5 mock_world)) = n_get mock_world"
  using inverted_range_rejected [of 2020 2021 "[''AI'']" False 2 5 mock_world]
  by (simp add: records_of_def world_of_def)


lemma announce_frame [simp]:
  "trace (announce topic year w) =
     trace w @ [Print (''THE FULL QUERY IS: '' @ topic),
                StatusText (''Searching for '' @ [CHR 0x27] @ topic @ [CHR 0x27] @ '' in ''
                            @ str_int year @ ''...'')]"
  "replies (announce topic year w) = replies w"
  "draws (announce topic year w) = draws w"
  "n_get (announce topic year w) = n_get w"
  "n_draw (announce topic year w) = n_draw w"
  by (simp_all add: announce_def Let_def)

lemma courtesy_delay_frame [simp]:
  "trace (courtesy_delay mn mx w) =
     trace w @ [Sleep (of_int mn + (of_int mx - of_int mn) * draws w (n_draw w))]"
  "replies (courtesy_delay mn mx w) = replies w"
  "draws (courtesy_delay mn mx w) = draws w"
  "n_get (courtesy_delay mn mx w) = n_get w"
  "n_draw (courtesy_delay mn mx w) = Suc (n_draw w)"
  by (simp_all add: courtesy_delay_def random_uniform_def time_sleep_def)

lemma before_call_frame [simp]:
  "trace (before_call mn mx topic year w) =
     trace w @ [Print (''THE FULL QUERY IS: '' @ topic),
                StatusText (''Searching for '' @ [CHR 0x27] @ topic @ [CHR 0x27] @ '' in ''
                            @ str_int year @ ''...''),
                Sleep (of_int mn + (of_int mx - of_int mn) * draws w (n_draw w)),
                Call topic year]"
  "replies (before_call mn mx topic year w) = replies w"
  "draws (before_call mn mx topic year w) = draws w"
  "n_get (before_call mn mx topic year w) = n_get w"
  by (simp_all add: before_call_def)

lemma note_error_frame:
  "replies (snd (note_error topic year m errs w)) = replies w"
  "draws (snd (note_error topic year m errs w)) = draws w"
  "\<exists>ext. trace (snd (note_error topic year m errs w)) = trace w @ ext
         \<and> (\<forall>e\<in>set ext. \<not> is_call e \<and> \<not> is_sleep e)"
  by (auto simp: note_error_def Let_def is_call_def is_sleep_def split: option.splits)

lemma pair_step_unfold:
  "pair_step ic mn mx ti topic year s =
     (let r = search_semantic_scholar topic year ic 3 (before_call mn mx topic year (env s));
          ne = note_error topic year (snd (snd (fst r))) (errors s) (snd r)
      in \<lparr>results = results s @ [make_result topic year (fst (fst r)) ic (fst (snd (fst r)))],
          errors = fst ne,
          current_iteration = current_iteration s + 1,
          env = emit (Progress (of_int (current_iteration s + 1) / of_int ti)) (snd ne)\<rparr>)"
  by (simp add: pair_step_def before_call_def Let_def split: prod.splits)


lemma pair_of_make_result:
  "pair_of (make_result topic year p ic c) = (Some (PyStr topic), Some (PyInt year))"
  by (simp add: make_result_def pair_of_def Let_def)

lemma pair_step_results_eq:
  "results (pair_step ic mn mx ti topic year s)
     = results s
       @ [make_result topic year
            (fst (fst (search_semantic_scholar topic year ic 3
                         (before_call mn mx topic year (env s)))))
            ic
            (fst (snd (fst (search_semantic_scholar topic year ic 3
                              (before_call mn mx topic year (env s))))))]"
  by (simp add: pair_step_unfold Let_def)

lemma pair_step_results:
  "\<exists>r. results (pair_step ic mn mx ti topic year s) = results s @ [r]
       \<and> pair_of r = (Some (PyStr topic), Some (PyInt year))"
  using pair_step_results_eq pair_of_make_result by blast

lemma year_loop_pairs:
  "\<exists>rs. results (year_loop ic mn mx ti topic years s) = results s @ rs
        \<and> map pair_of rs = map (\<lambda>y. (Some (PyStr topic), Some (PyInt y))) years"
proof (induction years arbitrary: s)
  case Nil
  then show ?case by simp
next
  case (Cons year years)
  obtain r where r: "results (pair_step ic mn mx ti topic year s) = results s @ [r]"
    "pair_of r = (Some (PyStr topic), Some (PyInt year))"
    using pair_step_results by blast
  obtain rs where rs:
    "results (year_loop ic mn mx ti topic years (pair_step ic mn mx ti topic year s))
       = results (pair_step ic mn mx ti topic year s) @ rs"
    "map pair_of rs = map (\<lambda>y. (Some (PyStr topic), Some (PyInt y))) years"
    using Cons.IH by blast
  have "results (year_loop ic mn mx ti topic (year # years) s) = results s @ (r # rs)"
    using r(1) rs(1) by simp
  moreover have "map pair_of (r # rs)
                   = map (\<lambda>y. (Some (PyStr topic), Some (PyInt y))) (year # years)"
    using r(2) rs(2) by simp
  ultimately show ?case by blast
qed

lemma topic_loop_pairs:
  "\<exists>rs. results (topic_loop ic mn mx ti topics years s) = results s @ rs
        \<and> map pair_of rs
            = map (\<lambda>(t, y). (Some (PyStr t), Some (PyInt y))) (List.product topics years)"
proof (induction topics arbitrary: s)
  case Nil
  then show ?case by simp
next
  case (Cons topic topics)
  obtain rs1 where rs1:
    "results (year_loop ic mn mx ti topic years s) = results s @ rs1"
    "map pair_of rs1 = map (\<lambda>y. (Some (PyStr topic), Some (PyInt y))) years"
    using year_loop_pairs by blast
  obtain rs2 where rs2:
    "results (topic_loop ic mn mx ti topics years (year_loop ic mn mx ti topic years s))
       = results (year_loop ic mn mx ti topic years s) @ rs2"
    "map pair_of rs2
       = map (\<lambda>(t, y). (Some (PyStr t), Some (PyInt y))) (List.product topics years)"
    using Cons.IH by blast
  have "results (topic_loop ic mn mx ti (topic # topics) years s) = results s @ (rs1 @ rs2)"
    using rs1(1) rs2(1) by simp
  moreover have "map pair_of (rs1 @ rs2)
      = map (\<lambda>(t, y). (Some (PyStr t), Some (PyInt y))) (List.product (topic # topics) years)"
    using rs1(2) rs2(2) by (simp add: comp_def)
  ultimately show ?case by blast
qed



lemma run_search_completed:
  assumes "start_year \<le> end_year"
  shows "run_search topic_list start_year end_year ic mn mx w
           = Completed
               (topic_loop ic mn mx
                  (int (length topic_list) * int (length [start_year..end_year]))
                  topic_list [start_year..end_year]
                  \<lparr>results = [], errors = [], current_iteration = 0,
                   env = emit (Info ''Searching in Title and Abstract ...'') w\<rparr>)"
  using assms unfolding run_search_def Let_def by simp

lemma topic_loop_pairs_from_empty:
  assumes "results s = []"
  shows "map pair_of (results (topic_loop ic mn mx ti topics years s))
           = map (\<lambda>(t, y). (Some (PyStr t), Some (PyInt y))) (List.product topics years)"
proof -
  obtain rs where "results (topic_loop ic mn mx ti topics years s) = results s @ rs"
    and "map pair_of rs
           = map (\<lambda>(t, y). (Some (PyStr t), Some (PyInt y))) (List.product topics years)"
    using topic_loop_pairs by blast
  then show ?thesis using assms by simp
qed

lemma topic_loop_length_from_empty:
  assumes "results s = []"
  shows "length (results (topic_loop ic mn mx ti topics years s))
           = length topics * length years"
proof -
  have "length (map pair_of (results (topic_loop ic mn mx ti topics years s)))
          = length (map (\<lambda>(t, y). (Some (PyStr t), Some (PyInt y)))
                      (List.product topics years))"
    by (simp only: topic_loop_pairs_from_empty [OF assms])
  then show ?thesis by (simp only: length_map length_product)
qed


text \<open>
  Claim C1. For \<^verbatim>\<open>start_year <= end_year\<close> the sweep runs to its end whatever the
  replies are, and it has then produced exactly one result record for each pair of the
  cartesian product of the topics and the years, in that order, so
  \<^verbatim>\<open>len(topics) * (end_year - start_year + 1)\<close> records. Each step of the sweep only
  appends one record to the records it found.
\<close>

theorem one_record_per_pair:
  assumes "start_year \<le> end_year"
  shows "(\<exists>s. run_search topic_list start_year end_year include_citations min_delay max_delay w
               = Completed s
            \<and> int (length (results s))
                = int (length topic_list) * (end_year - start_year + 1)
            \<and> map pair_of (results s)
                = map (\<lambda>(t, y). (Some (PyStr t), Some (PyInt y)))
                    (List.product topic_list [start_year..end_year]))
       \<and> (\<forall>s topic year. \<exists>r.
             results (pair_step include_citations min_delay max_delay ti topic year s)
               = results s @ [r])"
proof (intro conjI allI)
  let ?init = "\<lparr>results = [], errors = [], current_iteration = 0,
              env = emit (Info ''Searching in Title and Abstract ...'') w\<rparr>"
  let ?fin = "topic_loop include_citations min_delay max_delay
              (int (length topic_list) * int (length [start_year..end_year]))
              topic_list [start_year..end_year] ?init"
  have empty: "results ?init = []" by simp
  have run: "run_search topic_list start_year end_year include_citations min_delay max_delay w
               = Completed ?fin"
    using assms by (rule run_search_completed)
  have "length (results ?fin) = length topic_list * length [start_year..end_year]"
    using empty by (rule topic_loop_length_from_empty)
  moreover have "int (length [start_year..end_year]) = end_year - start_year + 1"
    using assms by simp
  ultimately have len: "int (length (results ?fin))
                          = int (length topic_list) * (end_year - start_year + 1)"
    by (simp only: of_nat_mult)
  have pairs: "map pair_of (results ?fin)
                = map (\<lambda>(t, y). (Some (PyStr t), Some (PyInt y)))
                    (List.product topic_list [start_year..end_year])"
    using empty by (rule topic_loop_pairs_from_empty)
  show "\<exists>s. run_search topic_list start_year end_year include_citations min_delay max_delay w
               = Completed s
            \<and> int (length (results s))
                = int (length topic_list) * (end_year - start_year + 1)
            \<and> map pair_of (results s)
                = map (\<lambda>(t, y). (Some (PyStr t), Some (PyInt y)))
                    (List.product topic_list [start_year..end_year])"
    using run len pairs by (intro exI [of _ ?fin] conjI)
next
  fix s topic year
  obtain r where "results (pair_step include_citations min_delay max_delay ti topic year s)
                    = results s @ [r]"
    using pair_step_results by blast
  then show "\<exists>r. results (pair_step include_citations min_delay max_delay ti topic year s)
                    = results s @ [r]"
    by (rule exI)
qed

theorem one_record_per_pair_witness:
  "\<exists>s. run_search [''AI''] 2020 2021 False 2 5 mock_world = Completed s
      \<and> int (length (results s)) = int (length [''AI'']) * (2021 - 2020 + 1)"
proof -
  have "(2020::int) \<le> 2021" by simp
  from one_record_per_pair [OF this, of "[''AI'']" False 2 5 mock_world 0]
  obtain s where "run_search [''AI''] 2020 2021 False 2 5 mock_world = Completed s"
    and "int (length (results s)) = int (length [''AI'']) * (2021 - 2020 + 1)"
    by (elim conjE exE)
  then show ?thesis by (intro exI conjI)
qed

lemma search_success:
  assumes "classify (replies w (n_get w)) = Succeeded r" and "0 \<le> mr"
  shows "search_semantic_scholar q y ic mr w
           = on_success q y ic r (snd (requests_get q (str_int y) 1 ''year'' w))"
  using assms
  by (subst search_semantic_scholar_def, subst retry_loop.simps) (simp add: Let_def)

lemma sample_citations_fails:
  assumes "replies w (n_get w) = Raises e
           \<or> (\<exists>r. replies w (n_get w) = Returns r \<and> raise_for_status r = Some e)"
  shows "fst (sample_citations q y w) = (PyInt 0, Some (citation_error e))"
  using assms by (auto simp: sample_citations_def Let_def)

lemma on_success_zero_citations:
  "fst (on_success q y ic r w) = (p, c, m) \<Longrightarrow> p \<le> 0 \<Longrightarrow> c = PyInt 0"
  by (auto simp: on_success_def Let_def split: if_splits)

lemma retry_loop_zero_citations:
  "fst (retry_loop q y ic mr rc w) = Some (p, c, m) \<Longrightarrow> p \<le> 0 \<Longrightarrow> c = PyInt 0"
proof (induction q y ic mr rc w rule: retry_loop.induct)
  case (1 q y ic mr rc w)
  show ?case
  proof (cases "rc \<le> mr")
    case False
    with "1.prems" show ?thesis by (subst (asm) retry_loop.simps) simp
  next
    case le: True
    show ?thesis
    proof (cases "classify (replies w (n_get w))")
      case RateLimited
      with le "1.prems" "1.IH"(1) show ?thesis
        by (subst (asm) retry_loop.simps) (simp split: if_splits)
    next
      case (Failed e)
      with le "1.prems" "1.IH"(2) show ?thesis
        by (subst (asm) retry_loop.simps) (simp split: if_splits)
    next
      case (Succeeded r)
      with le "1.prems" show ?thesis
        by (subst (asm) retry_loop.simps)
           (simp add: Let_def on_success_zero_citations)
    qed
  qed
qed

lemma search_zero_citations:
  assumes "fst (search_semantic_scholar q y ic mr w) = (p, c, m)" and "p \<le> 0"
  shows "c = PyInt 0"
proof (cases "fst (retry_loop q y ic mr 0 w)")
  case None
  with assms(1) show ?thesis by (simp add: search_result)
next
  case (Some r)
  with assms(1) have "fst (retry_loop q y ic mr 0 w) = Some (p, c, m)"
    by (simp add: search_result)
  then show ?thesis using assms(2) by (rule retry_loop_zero_citations)
qed

lemma make_result_rule:
  assumes "p \<le> 0 \<Longrightarrow> c = PyInt 0"
  shows "citation_field_rule ic (make_result topic year p ic c)"
  using assms by (simp add: citation_field_rule_def make_result_def Let_def)

lemma pair_step_rule:
  assumes "list_all (citation_field_rule ic) (results s)"
  shows "list_all (citation_field_rule ic) (results (pair_step ic mn mx ti topic year s))"
proof -
  let ?res = "fst (search_semantic_scholar topic year ic 3 (before_call mn mx topic year (env s)))"
  have "citation_field_rule ic (make_result topic year (fst ?res) ic (fst (snd ?res)))"
  proof (rule make_result_rule)
    assume "fst ?res \<le> 0"
    moreover have "?res = (fst ?res, fst (snd ?res), snd (snd ?res))" by simp
    ultimately show "fst (snd ?res) = PyInt 0" by (rule search_zero_citations [rotated])
  qed
  then show ?thesis using assms by (simp add: pair_step_results_eq)
qed

lemma year_loop_rule:
  "list_all (citation_field_rule ic) (results s) \<Longrightarrow>
   list_all (citation_field_rule ic) (results (year_loop ic mn mx ti topic years s))"
  by (induction years arbitrary: s) (simp_all add: pair_step_rule)

lemma topic_loop_rule:
  "list_all (citation_field_rule ic) (results s) \<Longrightarrow>
   list_all (citation_field_rule ic) (results (topic_loop ic mn mx ti topics years s))"
  by (induction topics arbitrary: s) (simp_all add: year_loop_rule)

text \<open>
  Claim C7, as amended. In every result record of a sweep the field
  \<^verbatim>\<open>Average Citations\<close> is present exactly when citation inclusion is requested,
  whatever the publication count is; when it is requested and the publication count is
  not positive, the field is present with the integer 0.
\<close>

theorem citation_field_follows_request:
  "list_all (citation_field_rule include_citations)
     (records_of (run_search topic_list start_year end_year include_citations
                    min_delay max_delay w))"
proof (cases "start_year \<le> end_year")
  case True
  have "list_all (citation_field_rule include_citations)
          (results \<lparr>results = [], errors = [], current_iteration = 0,
                    env = emit (Info ''Searching in Title and Abstract ...'') w\<rparr>)"
    by simp
  then show ?thesis
    unfolding run_search_completed [OF True] records_of_def
    by (simp add: topic_loop_rule)
next
  case False
  then show ?thesis by (simp add: run_search_def records_of_def)
qed

lemma pair_step_no_match:
  assumes "classify (replies (env s) (n_get (env s))) = Succeeded r"
    and "total r = Some 0"
  shows "results (pair_step ic mn mx ti topic year s)
           = results s @ [make_result topic year 0 ic (PyInt 0)]"
proof -
  let ?wc = "before_call mn mx topic year (env s)"
  have "classify (replies ?wc (n_get ?wc)) = Succeeded r" using assms(1) by simp
  then have "search_semantic_scholar topic year ic 3 ?wc
               = on_success topic year ic r (snd (requests_get topic (str_int year) 1 ''year'' ?wc))"
    by (rule search_success) simp
  then have "fst (search_semantic_scholar topic year ic 3 ?wc) = (0, PyInt 0, None)"
    using assms(2) by (simp add: on_success_def)
  then show ?thesis by (simp add: pair_step_results_eq)
qed

text \<open>
  The claim as written (no field when the count is 0) fails for a search that finds
  nothing while citation inclusion is requested: the record carries the field.
\<close>

theorem citation_field_without_publications:
  "records_of (run_search [''AI''] 2020 2020 True 2 5 empty_world)
     = [[(''Topic'', PyStr ''AI''), (''Year'', PyInt 2020), (''Publications'', PyInt 0),
         (''Average Citations'', PyInt 0)]]"
proof -
  let ?init = "\<lparr>results = [], errors = [], current_iteration = 0,
                env = emit (Info ''Searching in Title and Abstract ...'') empty_world\<rparr>"
  have c: "classify (replies (env ?init) (n_get (env ?init))) = Succeeded (ok_response 0)"
    by (simp add: empty_world_def start_world_def classify_def raise_for_status_def
          ok_response_def)
  have t: "total (ok_response 0) = Some 0" by (simp add: ok_response_def)
  have "(2020::int) \<le> 2020" by simp
  then show ?thesis
    unfolding run_search_completed [OF \<open>(2020::int) \<le> 2020\<close>] records_of_def
    by (simp add: pair_step_no_match [OF c t] make_result_def)
qed

theorem citation_field_follows_request_witness:
  "list_all (citation_field_rule True)
     (records_of (run_search [''AI''] 2020 2020 True 2 5 empty_world))"
  by (rule citation_field_follows_request)

lemma year_loop_length:
  "length (results (year_loop ic mn mx ti topic years s)) = length (results s) + length years"
  by (induction years arbitrary: s) (simp_all add: pair_step_results_eq)

lemma note_error_Some:
  "m \<noteq> [] \<Longrightarrow>
   fst (note_error topic year (Some m) errs w)
     = errs @ [''Error for '' @ [CHR 0x27] @ topic @ [CHR 0x27] @ '' in '' @ str_int year
               @ '': '' @ m]"
  by (simp add: note_error_def Let_def)

lemma pair_step_errors_eq:
  "errors (pair_step ic mn mx ti topic year s)
     = fst (note_error topic year
              (snd (snd (fst (search_semantic_scholar topic year ic 3
                                (before_call mn mx topic year (env s))))))
              (errors s)
              (snd (search_semantic_scholar topic year ic 3
                      (before_call mn mx topic year (env s)))))"
  by (simp add: pair_step_unfold Let_def)

text \<open>
  Claim C6. When citation inclusion is requested, the count request succeeds with a
  positive total and the citation request fails (an exception of \<^verbatim>\<open>requests.get\<close> or
  of \<^verbatim>\<open>raise_for_status\<close>), the record of the pair keeps the positive count and has
  \<^verbatim>\<open>Average Citations\<close> 0, the error list gains exactly one entry, the advisory
  message for this pair, and the sweep goes on with the remaining years.
\<close>

theorem citation_failure_is_advisory:
  assumes first: "classify (replies (env s) (n_get (env s))) = Succeeded r"
    and count: "total r = Some t" "0 < t"
    and second: "replies (env s) (Suc (n_get (env s))) = Raises e
                 \<or> (\<exists>r2. replies (env s) (Suc (n_get (env s))) = Returns r2
                          \<and> raise_for_status r2 = Some e)"
  shows "results (pair_step True min_delay max_delay ti topic year s)
           = results s @ [[(''Topic'', PyStr topic), (''Year'', PyInt year),
                           (''Publications'', PyInt t), (''Average Citations'', PyInt 0)]]
       \<and> errors (pair_step True min_delay max_delay ti topic year s)
           = errors s @ [''Error for '' @ [CHR 0x27] @ topic @ [CHR 0x27] @ '' in ''
                         @ str_int year @ '': '' @ citation_error e]
       \<and> length (results (year_loop True min_delay max_delay ti topic (year # years) s))
           = length (results s) + 1 + length years"
proof -
  let ?wc = "before_call min_delay max_delay topic year (env s)"
  let ?w1 = "snd (requests_get topic (str_int year) 1 ''year'' ?wc)"
  have "classify (replies ?wc (n_get ?wc)) = Succeeded r" using first by simp
  then have run: "search_semantic_scholar topic year True 3 ?wc
                    = on_success topic year True r ?w1"
    by (rule search_success) simp
  have "replies ?w1 (n_get ?w1) = Raises e
        \<or> (\<exists>r2. replies ?w1 (n_get ?w1) = Returns r2 \<and> raise_for_status r2 = Some e)"
    using second by simp
  then have "fst (sample_citations topic year ?w1) = (PyInt 0, Some (citation_error e))"
    by (rule sample_citations_fails)
  then have res: "fst (search_semantic_scholar topic year True 3 ?wc)
                    = (t, PyInt 0, Some (citation_error e))"
    using count by (simp add: run on_success_def Let_def)
  have ne: "citation_error e \<noteq> []" by (simp add: citation_error_def)
  have "results (pair_step True min_delay max_delay ti topic year s)
           = results s @ [[(''Topic'', PyStr topic), (''Year'', PyInt year),
                           (''Publications'', PyInt t), (''Average Citations'', PyInt 0)]]"
    by (simp add: pair_step_results_eq res make_result_def)
  moreover have "errors (pair_step True min_delay max_delay ti topic year s)
           = errors s @ [''Error for '' @ [CHR 0x27] @ topic @ [CHR 0x27] @ '' in ''
                         @ str_int year @ '': '' @ citation_error e]"
    by (simp only: pair_step_errors_eq res snd_conv note_error_Some [OF ne])
  moreover have "length (results (year_loop True min_delay max_delay ti topic (year # years) s))
           = length (results s) + 1 + length years"
    by (simp add: year_loop_length pair_step_results_eq)
  ultimately show ?thesis by (intro conjI)
qed

theorem citation_failure_is_advisory_witness:
  "results (pair_step True 2 5 1 ''AI'' 2020
              \<lparr>results = [], errors = [], current_iteration = 0, env = flaky_world\<rparr>)
     = [] @ [[(''Topic'', PyStr ''AI''), (''Year'', PyInt 2020),
              (''Publications'', PyInt 150), (''Average Citations'', PyInt 0)]]
   \<and> errors (pair_step True 2 5 1 ''AI'' 2020
                \<lparr>results = [], errors = [], current_iteration = 0, env = flaky_world\<rparr>)
     = [] @ [''Error for '' @ [CHR 0x27] @ ''AI'' @ [CHR 0x27] @ '' in ''
             @ str_int 2020 @ '': '' @ citation_error ''Read timed out'']"
proof -
  let ?init = "\<lparr>results = [], errors = [], current_iteration = 0, env = flaky_world\<rparr>"
  have a: "classify (replies (env ?init) (n_get (env ?init))) = Succeeded (ok_response 150)"
    by (simp add: flaky_world_def start_world_def classify_def raise_for_status_def
          ok_response_def)
  have b: "total (ok_response 150) = Some 150" "(0::int) < 150"
    by (simp_all add: ok_response_def)
  have c: "replies (env ?init) (Suc (n_get (env ?init))) = Raises ''Read timed out''
           \<or> (\<exists>r2. replies (env ?init) (Suc (n_get (env ?init))) = Returns r2
                    \<and> raise_for_status r2 = Some ''Read timed out'')"
    by (simp add: flaky_world_def start_world_def)
  from citation_failure_is_advisory [OF a b c, of 2 5 1 "''AI''" 2020 "[]"]
  show ?thesis by simp
qed

lemma no_calls_preceded:
  "\<forall>e\<in>set tr. \<not> is_call e \<Longrightarrow> preceded lo hi (e0 # tr)"
  by (induction tr arbitrary: e0) simp_all

lemma no_calls_courtesy_ok: "\<forall>e\<in>set tr. \<not> is_call e \<Longrightarrow> courtesy_ok lo hi tr"
  by (cases tr) (simp_all add: courtesy_ok_def no_calls_preceded)

lemma no_calls_calls_of: "\<forall>e\<in>set tr. \<not> is_call e \<Longrightarrow> calls_of tr = []"
  by (induction tr) (auto simp: calls_of_def is_call_def split: event.splits)

lemma calls_of_append: "calls_of (a @ b) = calls_of a @ calls_of b"
  by (simp add: calls_of_def)

lemma preceded_append:
  "preceded lo hi a \<Longrightarrow> courtesy_ok lo hi b \<Longrightarrow> preceded lo hi (a @ b)"
proof (induction a)
  case Nil
  then show ?case by (simp add: courtesy_ok_def)
next
  case step: (Cons e tr)
  show ?case
  proof (cases tr)
    case Nil
    with step.prems show ?thesis by (cases b) (simp_all add: courtesy_ok_def)
  next
    case (Cons e' tr')
    with step.prems have "preceded lo hi tr" by simp
    then have "preceded lo hi (tr @ b)" using step.prems(2) by (rule step.IH)
    with step.prems(1) Cons show ?thesis by simp
  qed
qed

lemma courtesy_ok_append:
  assumes a: "courtesy_ok lo hi a" and b: "courtesy_ok lo hi b"
  shows "courtesy_ok lo hi (a @ b)"
proof (cases a)
  case Nil
  then show ?thesis using b by simp
next
  case (Cons e tr)
  from a have "preceded lo hi a" by (simp add: courtesy_ok_def)
  then have "preceded lo hi (a @ b)" using b by (rule preceded_append)
  moreover have "\<not> is_call e" using a Cons by (simp add: courtesy_ok_def)
  ultimately show ?thesis using Cons by (simp add: courtesy_ok_def)
qed

lemma uniform_between:
  fixes a b u :: real
  assumes "a \<le> b" "0 \<le> u" "u < 1"
  shows "a \<le> a + (b - a) * u" "a + (b - a) * u \<le> b"
proof -
  have "0 \<le> (b - a) * u" using assms by simp
  then show "a \<le> a + (b - a) * u" by simp
  have "(b - a) * u \<le> (b - a) * 1"
    using assms by (intro mult_left_mono) simp_all
  then show "a + (b - a) * u \<le> b" by simp
qed


lemma search_trace_no_call:
  "\<exists>ext. trace (snd (search_semantic_scholar q y ic mr w)) = trace w @ ext
         \<and> (\<forall>e\<in>set ext. \<not> is_call e)"
  using retry_loop_trace [of q y ic mr 0 w] unfolding search_world by blast

lemma search_frame:
  "draws (snd (search_semantic_scholar q y ic mr w)) = draws w"
  by (simp add: search_world retry_loop_frame)

lemma pair_step_env:
  "env (pair_step ic mn mx ti topic year s)
     = emit (Progress (of_int (current_iteration s + 1) / of_int ti))
         (snd (note_error topic year
                 (snd (snd (fst (search_semantic_scholar topic year ic 3
                                   (before_call mn mx topic year (env s))))))
                 (errors s)
                 (snd (search_semantic_scholar topic year ic 3
                         (before_call mn mx topic year (env s))))))"
  by (simp add: pair_step_unfold Let_def)

lemma pair_step_trace:
  "\<exists>ext. trace (env (pair_step ic mn mx ti topic year s))
           = trace (env s)
             @ [Print (''THE FULL QUERY IS: '' @ topic),
                StatusText (''Searching for '' @ [CHR 0x27] @ topic @ [CHR 0x27] @ '' in ''
                            @ str_int year @ ''...''),
                Sleep (of_int mn + (of_int mx - of_int mn) * draws (env s) (n_draw (env s))),
                Call topic year]
             @ ext
         \<and> (\<forall>e\<in>set ext. \<not> is_call e)"
proof -
  let ?wc = "before_call mn mx topic year (env s)"
  let ?sr = "search_semantic_scholar topic year ic 3 ?wc"
  let ?ne = "note_error topic year (snd (snd (fst ?sr))) (errors s) (snd ?sr)"
  obtain ext1 where ext1: "trace (snd ?sr) = trace ?wc @ ext1" "\<forall>e\<in>set ext1. \<not> is_call e"
    using search_trace_no_call by blast
  obtain ext2 where ext2: "trace (snd ?ne) = trace (snd ?sr) @ ext2"
    "\<forall>e\<in>set ext2. \<not> is_call e \<and> \<not> is_sleep e"
    using note_error_frame(3) by blast
  let ?ext = "ext1 @ ext2 @ [Progress (of_int (current_iteration s + 1) / of_int ti)]"
  have "trace (env (pair_step ic mn mx ti topic year s))
           = trace (env s)
             @ [Print (''THE FULL QUERY IS: '' @ topic),
                StatusText (''Searching for '' @ [CHR 0x27] @ topic @ [CHR 0x27] @ '' in ''
                            @ str_int year @ ''...''),
                Sleep (of_int mn + (of_int mx - of_int mn) * draws (env s) (n_draw (env s))),
                Call topic year]
             @ ?ext"
    by (simp add: pair_step_env ext1(1) ext2(1))
  moreover have "\<forall>e\<in>set ?ext. \<not> is_call e"
    using ext1(2) ext2(2) by (auto simp: is_call_def)
  ultimately show ?thesis by blast
qed

lemma pair_step_draws: "draws (env (pair_step ic mn mx ti topic year s)) = draws (env s)"
  by (simp add: pair_step_env note_error_frame search_frame)

lemma pair_step_courtesy:
  assumes "mn \<le> mx" and "unit_draws (env s)"
  shows "\<exists>ext. trace (env (pair_step ic mn mx ti topic year s)) = trace (env s) @ ext
               \<and> courtesy_ok (of_int mn) (of_int mx) ext
               \<and> calls_of ext = [(topic, year)]
               \<and> unit_draws (env (pair_step ic mn mx ti topic year s))"
proof -
  let ?d = "of_int mn + (of_int mx - of_int mn) * draws (env s) (n_draw (env s)) :: real"
  let ?pre = "[Print (''THE FULL QUERY IS: '' @ topic),
               StatusText (''Searching for '' @ [CHR 0x27] @ topic @ [CHR 0x27] @ '' in ''
                           @ str_int year @ ''...''),
               Sleep ?d, Call topic year]"
  obtain ext where ext: "trace (env (pair_step ic mn mx ti topic year s))
                           = trace (env s) @ ?pre @ ext"
    "\<forall>e\<in>set ext. \<not> is_call e"
    using pair_step_trace by blast
  have u: "0 \<le> draws (env s) (n_draw (env s))" "draws (env s) (n_draw (env s)) < 1"
    using assms(2) by (simp_all add: unit_draws_def)
  have le: "(of_int mn :: real) \<le> of_int mx" using assms(1) by simp
  have d: "of_int mn \<le> ?d" "?d \<le> of_int mx"
    using uniform_between [OF le u] by simp_all
  have "preceded (of_int mn) (of_int mx) (Call topic year # ext)"
    using ext(2) by (rule no_calls_preceded)
  then have pre: "courtesy_ok (of_int mn) (of_int mx) (?pre @ ext)"
    using d by (simp add: courtesy_ok_def is_call_def delay_in_def)
  have "calls_of (?pre @ ext) = calls_of ?pre @ calls_of ext" by (rule calls_of_append)
  also have "calls_of ext = []" using ext(2) by (rule no_calls_calls_of)
  also have "calls_of ?pre = [(topic, year)]" by (simp add: calls_of_def)
  finally have calls: "calls_of (?pre @ ext) = [(topic, year)]" by simp
  have "unit_draws (env (pair_step ic mn mx ti topic year s))"
    using assms(2) by (simp add: unit_draws_def pair_step_draws)
  with ext(1) pre calls show ?thesis by blast
qed

lemma year_loop_courtesy:
  assumes "mn \<le> mx" and "unit_draws (env s)"
  shows "\<exists>ext. trace (env (year_loop ic mn mx ti topic years s)) = trace (env s) @ ext
               \<and> courtesy_ok (of_int mn) (of_int mx) ext
               \<and> calls_of ext = map (Pair topic) years
               \<and> unit_draws (env (year_loop ic mn mx ti topic years s))"
  using assms(2)
proof (induction years arbitrary: s)
  case Nil
  then show ?case by (simp add: courtesy_ok_def calls_of_def)
next
  case (Cons year years)
  let ?s1 = "pair_step ic mn mx ti topic year s"
  obtain e1 where e1: "trace (env ?s1) = trace (env s) @ e1"
    "courtesy_ok (of_int mn) (of_int mx) e1" "calls_of e1 = [(topic, year)]"
    "unit_draws (env ?s1)"
    using pair_step_courtesy [OF assms(1) Cons.prems] by blast
  obtain e2 where e2: "trace (env (year_loop ic mn mx ti topic years ?s1)) = trace (env ?s1) @ e2"
    "courtesy_ok (of_int mn) (of_int mx) e2" "calls_of e2 = map (Pair topic) years"
    "unit_draws (env (year_loop ic mn mx ti topic years ?s1))"
    using Cons.IH [OF e1(4)] by blast
  have "trace (env (year_loop ic mn mx ti topic (year # years) s)) = trace (env s) @ (e1 @ e2)"
    using e1(1) e2(1) by simp
  moreover have "courtesy_ok (of_int mn) (of_int mx) (e1 @ e2)"
    using e1(2) e2(2) by (rule courtesy_ok_append)
  moreover have "calls_of (e1 @ e2) = map (Pair topic) (year # years)"
    using e1(3) e2(3) by (simp add: calls_of_append)
  moreover have "unit_draws (env (year_loop ic mn mx ti topic (year # years) s))"
    using e2(4) by simp
  ultimately show ?case by blast
qed

lemma topic_loop_courtesy:
  assumes "mn \<le> mx" and "unit_draws (env s)"
  shows "\<exists>ext. trace (env (topic_loop ic mn mx ti topics years s)) = trace (env s) @ ext
               \<and> courtesy_ok (of_int mn) (of_int mx) ext
               \<and> calls_of ext = List.product topics years
               \<and> unit_draws (env (topic_loop ic mn mx ti topics years s))"
  using assms(2)
proof (induction topics arbitrary: s)
  case Nil
  then show ?case by (simp add: courtesy_ok_def calls_of_def)
next
  case (Cons topic topics)
  let ?s1 = "year_loop ic mn mx ti topic years s"
  obtain e1 where e1: "trace (env ?s1) = trace (env s) @ e1"
    "courtesy_ok (of_int mn) (of_int mx) e1" "calls_of e1 = map (Pair topic) years"
    "unit_draws (env ?s1)"
    using year_loop_courtesy [OF assms(1) Cons.prems] by blast
  obtain e2 where e2:
    "trace (env (topic_loop ic mn mx ti topics years ?s1)) = trace (env ?s1) @ e2"
    "courtesy_ok (of_int mn) (of_int mx) e2" "calls_of e2 = List.product topics years"
    "unit_draws (env (topic_loop ic mn mx ti topics years ?s1))"
    using Cons.IH [OF e1(4)] by blast
  have "trace (env (topic_loop ic mn mx ti (topic # topics) years s))
          = trace (env s) @ (e1 @ e2)"
    using e1(1) e2(1) by simp
  moreover have "courtesy_ok (of_int mn) (of_int mx) (e1 @ e2)"
    using e1(2) e2(2) by (rule courtesy_ok_append)
  moreover have "calls_of (e1 @ e2) = List.product (topic # topics) years"
    using e1(3) e2(3) by (simp add: calls_of_append)
  moreover have "unit_draws (env (topic_loop ic mn mx ti (topic # topics) years s))"
    using e2(4) by simp
  ultimately show ?case by blast
qed

lemma product_no_years: "List.product topics [] = []"
  by (induction topics) simp_all

text \<open>
  Claim C8. With \<^verbatim>\<open>min_delay <= max_delay\<close> and every draw of \<^verbatim>\<open>random.random()\<close>
  in the half-open interval from 0 to 1, every call of the executor in a sweep, the
  first one included, stands directly after a sleep whose duration lies between
  \<^verbatim>\<open>min_delay\<close> and \<^verbatim>\<open>max_delay\<close>; and the executor is called once for each pair of
  a topic and a year, in order.
\<close>

theorem courtesy_delay_before_every_call:
  assumes "min_delay \<le> max_delay" and "unit_draws w"
  shows "courtesy_ok (of_int min_delay) (of_int max_delay)
           (new_events w (world_of (run_search topic_list start_year end_year
                                      include_citations min_delay max_delay w)))
       \<and> calls_of (new_events w (world_of (run_search topic_list start_year end_year
                                      include_citations min_delay max_delay w)))
           = List.product topic_list [start_year..end_year]"
proof (cases "start_year \<le> end_year")
  case False
  then have "[start_year..end_year] = []" by simp
  then show ?thesis
    using False
    by (simp add: run_search_def world_of_def new_events_def courtesy_ok_def calls_of_def
          is_call_def product_no_years)
next
  case True
  let ?info = "Info ''Searching in Title and Abstract ...''"
  let ?init = "\<lparr>results = [], errors = [], current_iteration = 0, env = emit ?info w\<rparr>"
  let ?ti = "int (length topic_list) * int (length [start_year..end_year])"
  let ?fin = "topic_loop include_citations min_delay max_delay ?ti topic_list
                [start_year..end_year] ?init"
  have "unit_draws (env ?init)" using assms(2) by (simp add: unit_draws_def)
  then obtain ext where ext: "trace (env ?fin) = trace (env ?init) @ ext"
    "courtesy_ok (of_int min_delay) (of_int max_delay) ext"
    "calls_of ext = List.product topic_list [start_year..end_year]"
    using topic_loop_courtesy [OF assms(1)] by blast
  have "trace (env ?fin) = trace w @ (?info # ext)" using ext(1) by simp
  then have ne: "new_events w (env ?fin) = ?info # ext" by (rule new_events_ext)
  have "courtesy_ok (of_int min_delay) (of_int max_delay) ([?info] @ ext)"
    using _ ext(2) by (rule courtesy_ok_append) (simp add: courtesy_ok_def is_call_def)
  moreover have "calls_of ([?info] @ ext) = List.product topic_list [start_year..end_year]"
    using ext(3) by (simp add: calls_of_append) (simp add: calls_of_def)
  moreover have run: "world_of (run_search topic_list start_year end_year include_citations
                                  min_delay max_delay w) = env ?fin"
    by (simp only: run_search_completed [OF True] world_of_def outcome.case)
  ultimately show ?thesis
    unfolding run ne by simp
qed

theorem courtesy_delay_before_every_call_witness:
  "courtesy_ok (of_int 2) (of_int 5)
     (new_events mock_world (world_of (run_search [''AI''] 2020 2021 False 2 5 mock_world)))
   \<and> calls_of
       (new_events mock_world (world_of (run_search [''AI''] 2020 2021 False 2 5 mock_world)))
     = List.product [''AI''] [2020..2021]"
proof -
  have le: "(2::int) \<le> 5" by simp
  have unit: "unit_draws mock_world"
    by (simp add: unit_draws_def mock_world_def start_world_def)
  show ?thesis
    by (rule courtesy_delay_before_every_call [OF le unit])
qed

end
